theory Spec2Isabelle
  imports Complex_Main
begin

section \<open>Data model of \<open>chain_manager.cpp\<close>\<close>

text \<open>
  The embedding follows \<^verbatim>\<open>robot_calibration/src/util/chain_manager.cpp\<close>.
  A \<^verbatim>\<open>double\<close> is modelled as a \<open>real\<close>: the code only stores, compares and
  multiplies these values, and rounding and NaN are outside the model.
  A member \<^verbatim>\<open>foo_\<close> of the class is the field \<open>foo\<close> of the record (a name
  cannot end in an underscore here).
\<close>

text \<open>\<^verbatim>\<open>sensor_msgs::msg::JointState\<close>: three parallel arrays.\<close>

record JointState =
  name :: "string list"
  position :: "real list"
  velocity :: "real list"

text \<open>
  \<^verbatim>\<open>ChainController\<close>: the members the functions of this file read. The action
  client of a chain is an external collaborator; its calls appear as events below.
\<close>

record ChainController =
  chain_name :: string
  chain_planning_group :: string
  joint_names :: "string list"

record ChainManager =
  state :: JointState
  state_is_valid :: bool
  controllers :: "ChainController list"
  duration :: real
  velocity_factor :: real
  settling_timeout :: real

text \<open>
  The two ways a call can end without returning: \<^verbatim>\<open>exit(-1)\<close> in \<^verbatim>\<open>makePoint\<close>
  (the joint named in the logged message is kept), and an index past the end of a
  \<^verbatim>\<open>std::vector\<close>, which C++ leaves undefined.
\<close>

datatype failure = ProcessExit string | UndefinedBehaviour

section \<open>The joint-state store: \<open>stateCallback\<close> and \<open>getState\<close>\<close>

text \<open>
  The inner loop of \<^verbatim>\<open>stateCallback\<close> (and of \<^verbatim>\<open>makePoint\<close>) walks the name
  array from index 0 and stops at the first entry equal to the wanted name. The result is
  the value of the loop index when the loop is left: the index of the first match, or the
  size of the array when no entry matches.
\<close>

fun find_joint :: "string list \<Rightarrow> string \<Rightarrow> nat" where
  "find_joint [] n = 0"
| "find_joint (x # xs) n = (if x = n then 0 else Suc (find_joint xs n))"

text \<open>
  One round of the outer loop of \<^verbatim>\<open>stateCallback\<close>, for the message entry
  \<open>(n, p, v)\<close>: overwrite position and velocity at the first matching index, or push
  the three values when the name is new.
\<close>

definition update_joint :: "JointState \<Rightarrow> string \<Rightarrow> real \<Rightarrow> real \<Rightarrow> failure + JointState" where
  "update_joint st n p v =
     (let state_j = find_joint (name st) n in
      if state_j = length (name st) then
        Inr (st\<lparr>name := name st @ [n], position := position st @ [p], velocity := velocity st @ [v]\<rparr>)
      else if state_j < length (position st) \<and> state_j < length (velocity st) then
        Inr (st\<lparr>position := (position st)[state_j := p], velocity := (velocity st)[state_j := v]\<rparr>)
      else Inl UndefinedBehaviour)"

text \<open>The outer loop, from message index \<open>msg_j\<close> on.\<close>

function update_loop :: "JointState \<Rightarrow> JointState \<Rightarrow> nat \<Rightarrow> failure + JointState" where
  "update_loop msg st msg_j =
     (if msg_j < length (name msg) then
        (case update_joint st (name msg ! msg_j) (position msg ! msg_j) (velocity msg ! msg_j) of
           Inl e \<Rightarrow> Inl e
         | Inr st' \<Rightarrow> update_loop msg st' (Suc msg_j))
      else Inr st)"
  by pat_completeness auto
termination
  by (relation "measure (\<lambda>(msg, st, msg_j). length (name msg) - msg_j)") auto

declare update_loop.simps [simp del]

definition stateCallback :: "ChainManager \<Rightarrow> JointState \<Rightarrow> failure + ChainManager" where
  "stateCallback cm msg =
     (if length (name msg) \<noteq> length (position msg) then Inr cm
      else if length (position msg) \<noteq> length (velocity msg) then Inr cm
      else (case update_loop msg (state cm) 0 of
              Inl e \<Rightarrow> Inl e
            | Inr st' \<Rightarrow> Inr (cm\<lparr>state := st', state_is_valid := True\<rparr>)))"

text \<open>
  \<^verbatim>\<open>getState\<close> copies the store into the caller's variable and returns the
  validity flag; it writes no member of the manager.
\<close>

definition getState :: "ChainManager \<Rightarrow> JointState \<times> bool" where
  "getState cm = (state cm, state_is_valid cm)"

text \<open>
  \<^verbatim>\<open>rclcpp::spin_some\<close> runs the subscription callback once for every pending
  message of the state stream, in order of arrival. The pending messages are an input of
  the model.
\<close>

fun spin_some :: "ChainManager \<Rightarrow> JointState list \<Rightarrow> failure + ChainManager" where
  "spin_some cm [] = Inr cm"
| "spin_some cm (msg # msgs) =
     (case stateCallback cm msg of Inl e \<Rightarrow> Inl e | Inr cm' \<Rightarrow> spin_some cm' msgs)"

section \<open>\<open>makePoint\<close>\<close>

text \<open>\<^verbatim>\<open>trajectory_msgs::msg::JointTrajectoryPoint\<close>; the time is in seconds.\<close>

record JointTrajectoryPoint =
  positions :: "real list"
  velocities :: "real list"
  accelerations :: "real list"
  time_from_start :: real

text \<open>
  The loop of \<^verbatim>\<open>makePoint\<close> over the joint list, with the point built so far.
  The inner loop pushes \<^verbatim>\<open>state.position[j]\<close> at the first \<open>j\<close> whose name matches
  and breaks; then a zero velocity and a zero acceleration are pushed, and the sizes of
  \<open>velocities\<close> and \<open>positions\<close> are compared: \<^verbatim>\<open>exit(-1)\<close> when they differ.
\<close>

fun makePoint_loop :: "JointState \<Rightarrow> string list \<Rightarrow> JointTrajectoryPoint \<Rightarrow> failure + JointTrajectoryPoint" where
  "makePoint_loop st [] p = Inr p"
| "makePoint_loop st (jn # joints) p =
     (let j = find_joint (name st) jn in
      if j < length (name st) \<and> \<not> j < length (position st) then Inl UndefinedBehaviour
      else
        let p1 = (if j < length (name st) then p\<lparr>positions := positions p @ [position st ! j]\<rparr> else p);
            p2 = p1\<lparr>velocities := velocities p1 @ [0], accelerations := accelerations p1 @ [0]\<rparr>
        in if length (velocities p2) \<noteq> length (positions p2) then Inl (ProcessExit jn)
           else makePoint_loop st joints p2)"

definition makePoint :: "JointState \<Rightarrow> string list \<Rightarrow> failure + JointTrajectoryPoint" where
  "makePoint st joints =
     makePoint_loop st joints
       \<lparr>positions = [], velocities = [], accelerations = [], time_from_start = 0\<rparr>"

section \<open>\<open>moveToState\<close>\<close>

text \<open>
  The messages exchanged with the planner and with the chains' controllers. The nested
  fields of the MoveGroup goal (\<^verbatim>\<open>request.*\<close>, \<^verbatim>\<open>planning_options.*\<close>) are
  flattened; \<open>constraint_position\<close> is the field \<^verbatim>\<open>position\<close> of a joint constraint and
  \<open>trajectory_joint_names\<close> the field \<^verbatim>\<open>joint_names\<close> of a trajectory.
\<close>

record JointConstraint =
  joint_name :: string
  constraint_position :: real
  tolerance_above :: real
  tolerance_below :: real
  weight :: real

record MoveGroupGoal =
  group_name :: string
  num_planning_attempts :: int
  allowed_planning_time :: real
  goal_constraints :: "JointConstraint list list"
  max_velocity_scaling_factor :: real
  start_state_is_diff :: bool
  planning_scene_diff_is_diff :: bool
  robot_state_is_diff :: bool
  plan_only :: bool

record JointTrajectory =
  trajectory_joint_names :: "string list"
  points :: "JointTrajectoryPoint list"

record MoveGroupResult =
  error_code_val :: int
  planned_trajectory :: JointTrajectory

record TrajectoryGoal =
  trajectory :: JointTrajectory
  goal_time_tolerance :: real

text \<open>
  \<^verbatim>\<open>moveit_msgs::msg::MoveItErrorCodes::SUCCESS\<close>, a constant of the MoveIt message
  package (its value there is 1).
\<close>

definition SUCCESS :: int where
  "SUCCESS = 1"

text \<open>
  Modelled from the spec: \<^verbatim>\<open>ChainController::shouldPlan\<close> is declared in the header
  \<^verbatim>\<open>chain_manager.hpp\<close>, which is not among the sources. The spec: the planning-group
  identifier is empty if the chain is directly actuated, and non-empty means that the chain
  requires planning.
\<close>

definition shouldPlan :: "ChainController \<Rightarrow> bool" where
  "shouldPlan c = (chain_planning_group c \<noteq> [])"

text \<open>
  What \<^verbatim>\<open>moveToState\<close> does to its collaborators, in order: the request sent to the
  planner and the bounded wait for its result, the goal sent to the controller of chain
  \<open>i\<close>, and the bounded wait for the result of chain \<open>i\<close> together with what that
  wait returned.
\<close>

datatype event =
    MoveGroupSendGoal MoveGroupGoal
  | MoveGroupWaitForResult real
  | SendGoal nat TrajectoryGoal
  | WaitForResult nat real bool

text \<open>The MoveGroup goal built for a chain that plans, from the point \<open>p\<close>.\<close>

definition moveit_goal :: "ChainManager \<Rightarrow> ChainController \<Rightarrow> JointTrajectoryPoint \<Rightarrow> MoveGroupGoal" where
  "moveit_goal cm ctrl p =
     \<lparr>group_name = chain_planning_group ctrl,
      num_planning_attempts = 1,
      allowed_planning_time = 5,
      goal_constraints =
        [map (\<lambda>c. \<lparr>joint_name = joint_names ctrl ! c,
                    constraint_position = positions p ! c,
                    tolerance_above = 0.01,
                    tolerance_below = 0.01,
                    weight = 1\<rparr>)
             [0..<length (joint_names ctrl)]],
      max_velocity_scaling_factor = velocity_factor cm,
      start_state_is_diff = True,
      planning_scene_diff_is_diff = True,
      robot_state_is_diff = True,
      plan_only = True\<rparr>"

text \<open>
  One round of the first loop of \<^verbatim>\<open>moveToState\<close>, for controller \<open>i\<close>.
  \<open>getResult i\<close> is what \<^verbatim>\<open>move_group_->getResult()\<close> yields for the request of
  controller \<open>i\<close>. The result is \<open>(False, _, _)\<close> when the function returns false in
  this round, and otherwise the new \<open>max_duration\<close>; the events are those of the round.
  Reading the last point of an empty planned trajectory is an index past the end.
\<close>

definition dispatch_chain ::
  "ChainManager \<Rightarrow> (nat \<Rightarrow> MoveGroupResult) \<Rightarrow> JointState \<Rightarrow> nat \<Rightarrow> real
   \<Rightarrow> failure + (bool \<times> real \<times> event list)" where
  "dispatch_chain cm getResult st i max_duration =
     (let ctrl = controllers cm ! i in
      case makePoint st (joint_names ctrl) of
        Inl e \<Rightarrow> Inl e
      | Inr p \<Rightarrow>
          if shouldPlan ctrl then
            (let planning = [MoveGroupSendGoal (moveit_goal cm ctrl p), MoveGroupWaitForResult 60];
                 result = getResult i
             in if error_code_val result \<noteq> SUCCESS then Inr (False, max_duration, planning)
                else
                  let traj = planned_trajectory result in
                  if points traj = [] then Inl UndefinedBehaviour
                  else
                    let d = time_from_start (points traj ! (length (points traj) - 1)) in
                    Inr (True, max max_duration d,
                         planning @ [SendGoal i \<lparr>trajectory = traj, goal_time_tolerance = 1\<rparr>]))
          else
            Inr (True, max_duration,
                 [SendGoal i
                    \<lparr>trajectory =
                       \<lparr>trajectory_joint_names = joint_names ctrl,
                        points = [p\<lparr>time_from_start := duration cm\<rparr>]\<rparr>,
                     goal_time_tolerance = 1\<rparr>]))"

text \<open>The first loop, from controller \<open>i\<close> on, with the events so far.\<close>

function send_goals ::
  "ChainManager \<Rightarrow> (nat \<Rightarrow> MoveGroupResult) \<Rightarrow> JointState \<Rightarrow> nat \<Rightarrow> real \<Rightarrow> event list
   \<Rightarrow> failure + (bool \<times> real \<times> event list)" where
  "send_goals cm getResult st i max_duration evs =
     (if i < length (controllers cm) then
        (case dispatch_chain cm getResult st i max_duration of
           Inl e \<Rightarrow> Inl e
         | Inr (ok, max_duration', es) \<Rightarrow>
             if ok then send_goals cm getResult st (Suc i) max_duration' (evs @ es)
             else Inr (False, max_duration', evs @ es))
      else Inr (True, max_duration, evs))"
  by pat_completeness auto
termination
  by (relation "measure (\<lambda>(cm, getResult, st, i, max_duration, evs). length (controllers cm) - i)") auto

declare send_goals.simps [simp del]

text \<open>
  The second loop waits for every chain in turn; \<open>waitForResult i t\<close> is what the wait
  on chain \<open>i\<close> with timeout \<open>t\<close> returns, which the code discards.
\<close>

definition wait_results :: "ChainManager \<Rightarrow> (nat \<Rightarrow> real \<Rightarrow> bool) \<Rightarrow> real \<Rightarrow> event list" where
  "wait_results cm waitForResult max_duration =
     map (\<lambda>i. WaitForResult i (max_duration * 1.5) (waitForResult i (max_duration * 1.5)))
       [0..<length (controllers cm)]"

definition moveToState ::
  "ChainManager \<Rightarrow> (nat \<Rightarrow> MoveGroupResult) \<Rightarrow> (nat \<Rightarrow> real \<Rightarrow> bool) \<Rightarrow> JointState
   \<Rightarrow> failure + (bool \<times> event list)" where
  "moveToState cm getResult waitForResult st =
     (case send_goals cm getResult st 0 (duration cm) [] of
        Inl e \<Rightarrow> Inl e
      | Inr (ok, max_duration, evs) \<Rightarrow>
          if ok then Inr (True, evs @ wait_results cm waitForResult max_duration)
          else Inr (False, evs))"

section \<open>\<open>waitToSettle\<close>\<close>

text \<open>
  The two inner loops of the settle check, for the joint \<open>n\<close> of the snapshot, threading
  the flag \<open>settled\<close>: the loop over a chain's joint names clears the flag at the first
  equal name and breaks; the loop over the controllers runs through all of them.
\<close>

fun joint_names_loop :: "string list \<Rightarrow> string \<Rightarrow> bool \<Rightarrow> bool" where
  "joint_names_loop [] n settled = settled"
| "joint_names_loop (x # xs) n settled = (if x = n then False else joint_names_loop xs n settled)"

fun controllers_loop :: "ChainController list \<Rightarrow> string \<Rightarrow> bool \<Rightarrow> bool" where
  "controllers_loop [] n settled = settled"
| "controllers_loop (c # cs) n settled =
     controllers_loop cs n (joint_names_loop (joint_names c) n settled)"

text \<open>
  The loop over the joints of the snapshot, from index \<open>j\<close> on. The flag is true
  whenever a round starts, since the loop is left as soon as it is false. The result is
  the flag and the index at which the loop was left.
\<close>

function joints_loop :: "ChainController list \<Rightarrow> JointState \<Rightarrow> nat \<Rightarrow> failure + (bool \<times> nat)" where
  "joints_loop cs st j =
     (if j < length (name st) then
        if \<not> j < length (velocity st) then Inl UndefinedBehaviour
        else if \<bar>velocity st ! j\<bar> < 0.001 then joints_loop cs st (Suc j)
        else if \<not> controllers_loop cs (name st ! j) True then Inr (False, j)
        else joints_loop cs st (Suc j)
      else Inr (True, j))"
  by pat_completeness auto
termination
  by (relation "measure (\<lambda>(cs, st, j). length (name st) - j)") auto

declare joints_loop.simps [simp del]

text \<open>The value of \<open>settled\<close> at the end of one round of the polling loop.\<close>

definition settled_now :: "ChainManager \<Rightarrow> failure + (bool \<times> nat)" where
  "settled_now cm =
     (let (st, valid) = getState cm in
      if valid then joints_loop (controllers cm) st 0 else Inr (False, 0))"

text \<open>
  The polling loop. It may run forever, so the model is given the finitely many rounds the
  environment provides: a round that does not settle consumes one entry \<open>(now, msgs)\<close>,
  the clock reading of the timeout test and the messages pending at \<^verbatim>\<open>spin_some\<close>.
  \<open>None\<close> means that the loop is still running when the entries are used up.
\<close>

fun settle_loop ::
  "ChainManager \<Rightarrow> real \<Rightarrow> (real \<times> JointState list) list \<Rightarrow> (failure + (bool \<times> ChainManager)) option" where
  "settle_loop cm start [] =
     (case settled_now cm of
        Inl e \<Rightarrow> Some (Inl e)
      | Inr (settled, j) \<Rightarrow> if settled then Some (Inr (True, cm)) else None)"
| "settle_loop cm start ((now, msgs) # rounds) =
     (case settled_now cm of
        Inl e \<Rightarrow> Some (Inl e)
      | Inr (settled, j) \<Rightarrow>
          if settled then Some (Inr (True, cm))
          else if settling_timeout cm > 0 \<and> now - start > settling_timeout cm then Some (Inr (False, cm))
          else (case spin_some cm msgs of
                  Inl e \<Rightarrow> Some (Inl e)
                | Inr cm' \<Rightarrow> settle_loop cm' start rounds))"

text \<open>
  \<open>node\<close> tells whether the weak pointer to the node can still be locked, and \<open>start\<close>
  is the clock reading taken before the loop.
\<close>

definition waitToSettle ::
  "ChainManager \<Rightarrow> bool \<Rightarrow> real \<Rightarrow> (real \<times> JointState list) list
   \<Rightarrow> (failure + (bool \<times> ChainManager)) option" where
  "waitToSettle cm node start rounds =
     (if controllers cm = [] then Some (Inr (True, cm))
      else if \<not> node then Some (Inr (False, cm))
      else settle_loop (cm\<lparr>state_is_valid := False\<rparr>) start rounds)"

section \<open>Queries on the registered chains\<close>

definition getChains :: "ChainManager \<Rightarrow> string list" where
  "getChains cm = map chain_name (controllers cm)"

fun getChainJointNames_loop :: "ChainController list \<Rightarrow> string \<Rightarrow> string list" where
  "getChainJointNames_loop [] cn = []"
| "getChainJointNames_loop (c # cs) cn =
     (if chain_name c = cn then joint_names c else getChainJointNames_loop cs cn)"

definition getChainJointNames :: "ChainManager \<Rightarrow> string \<Rightarrow> string list" where
  "getChainJointNames cm cn = getChainJointNames_loop (controllers cm) cn"

fun getPlanningGroupName_loop :: "ChainController list \<Rightarrow> string \<Rightarrow> string" where
  "getPlanningGroupName_loop [] cn = []"
| "getPlanningGroupName_loop (c # cs) cn =
     (if chain_name c = cn then chain_planning_group c else getPlanningGroupName_loop cs cn)"

definition getPlanningGroupName :: "ChainManager \<Rightarrow> string \<Rightarrow> string" where
  "getPlanningGroupName cm cn = getPlanningGroupName_loop (controllers cm) cn"

section \<open>Notions used in the statements\<close>

text \<open>
  The constructor leaves \<^verbatim>\<open>state_\<close> default-constructed, three empty arrays, and sets
  \<^verbatim>\<open>state_is_valid_\<close> to false.
\<close>

definition initial_state :: JointState where
  "initial_state = \<lparr>name = [], position = [], velocity = []\<rparr>"

text \<open>The invariant of the store: parallel arrays of one length, and no name twice.\<close>

definition store_invariant :: "JointState \<Rightarrow> bool" where
  "store_invariant st =
     (length (name st) = length (position st) \<and> length (position st) = length (velocity st)
      \<and> distinct (name st))"

text \<open>
  The position and the velocity a snapshot holds for the joint \<open>n\<close>: those at the first
  index whose name is \<open>n\<close>.
\<close>

definition position_of :: "JointState \<Rightarrow> string \<Rightarrow> real" where
  "position_of st n = position st ! find_joint (name st) n"

definition velocity_of :: "JointState \<Rightarrow> string \<Rightarrow> real" where
  "velocity_of st n = velocity st ! find_joint (name st) n"

text \<open>
  A sequence of calls on the store: \<open>run\<close> applies them in order and collects what the
  calls of \<open>getState\<close> returned.
\<close>

datatype operation = StateCallback JointState | GetState

fun run :: "ChainManager \<Rightarrow> operation list \<Rightarrow> failure + (ChainManager \<times> (JointState \<times> bool) list)" where
  "run cm [] = Inr (cm, [])"
| "run cm (StateCallback msg # ops) =
     (case stateCallback cm msg of Inl e \<Rightarrow> Inl e | Inr cm' \<Rightarrow> run cm' ops)"
| "run cm (GetState # ops) =
     (case run cm ops of Inl e \<Rightarrow> Inl e | Inr (cm', snaps) \<Rightarrow> Inr (cm', getState cm # snaps))"


text \<open>Chain \<open>i\<close> plans, and the result of its planning request is not a success.\<close>

definition plan_failed :: "ChainManager \<Rightarrow> (nat \<Rightarrow> MoveGroupResult) \<Rightarrow> nat \<Rightarrow> bool" where
  "plan_failed cm getResult i =
     (shouldPlan (controllers cm ! i) \<and> error_code_val (getResult i) \<noteq> SUCCESS)"

text \<open>
  Projections of an event list: the chains whose goals were sent, in order, and the chains
  waited for with the timeout of each wait.
\<close>

fun sent_chains :: "event list \<Rightarrow> nat list" where
  "sent_chains [] = []"
| "sent_chains (SendGoal i g # es) = i # sent_chains es"
| "sent_chains (e # es) = sent_chains es"

fun wait_timeouts :: "event list \<Rightarrow> (nat \<times> real) list" where
  "wait_timeouts [] = []"
| "wait_timeouts (WaitForResult i t r # es) = (i, t) # wait_timeouts es"
| "wait_timeouts (e # es) = wait_timeouts es"

text \<open>
  The time of the last waypoint of the planned trajectory, for every chain that plans, and
  the maximum of these and the configured duration.
\<close>

definition planned_durations :: "ChainManager \<Rightarrow> (nat \<Rightarrow> MoveGroupResult) \<Rightarrow> real list" where
  "planned_durations cm getResult =
     map (\<lambda>i. time_from_start (last (points (planned_trajectory (getResult i)))))
       (filter (\<lambda>i. shouldPlan (controllers cm ! i)) [0..<length (controllers cm)])"

definition aggregate_duration :: "ChainManager \<Rightarrow> (nat \<Rightarrow> MoveGroupResult) \<Rightarrow> real" where
  "aggregate_duration cm getResult = Max (set (duration cm # planned_durations cm getResult))"

section \<open>Example configurations\<close>

text \<open>
  A manager with a directly actuated torso and a planned arm, a target state, a planner that
  answers with a two-point trajectory ending at 8.2 s and one that fails, and some stores and
  messages of the state stream.
\<close>

definition demo_manager :: ChainManager where
  "demo_manager =
     \<lparr>state = \<lparr>name = [], position = [], velocity = []\<rparr>,
      state_is_valid = False,
      controllers =
        [\<lparr>chain_name = ''torso'', chain_planning_group = [], joint_names = [''torso_lift'']\<rparr>,
         \<lparr>chain_name = ''arm'', chain_planning_group = ''arm_group'', joint_names = [''shoulder'', ''elbow'']\<rparr>],
      duration = 5, velocity_factor = 1, settling_timeout = 0\<rparr>"

definition demo_target :: JointState where
  "demo_target =
     \<lparr>name = [''elbow'', ''torso_lift'', ''shoulder''], position = [0.5, 0.2, -1], velocity = [0, 0, 0]\<rparr>"

definition plan_succeeds :: "nat \<Rightarrow> MoveGroupResult" where
  "plan_succeeds i =
     \<lparr>error_code_val = 1,
      planned_trajectory =
        \<lparr>trajectory_joint_names = [''shoulder'', ''elbow''],
         points =
           [\<lparr>positions = [-0.5, 0.2], velocities = [0.1, 0.1], accelerations = [0, 0], time_from_start = 4.1\<rparr>,
            \<lparr>positions = [-1, 0.5], velocities = [0, 0], accelerations = [0, 0], time_from_start = 8.2\<rparr>]\<rparr>\<rparr>"

definition plan_fails :: "nat \<Rightarrow> MoveGroupResult" where
  "plan_fails i =
     \<lparr>error_code_val = -1,
      planned_trajectory = \<lparr>trajectory_joint_names = [], points = []\<rparr>\<rparr>"

definition demo_store :: JointState where
  "demo_store = \<lparr>name = [''torso_lift'', ''shoulder''], position = [0.1, 0.7], velocity = [0, 0.2]\<rparr>"

definition demo_msg :: JointState where
  "demo_msg =
     \<lparr>name = [''shoulder'', ''elbow'', ''shoulder''], position = [1, 2, 3], velocity = [0.5, 0, 0.25]\<rparr>"

definition short_msg :: JointState where
  "short_msg = \<lparr>name = [''shoulder'', ''elbow''], position = [1], velocity = [0.5, 0]\<rparr>"



definition two_chains :: ChainManager where
  "two_chains =
     \<lparr>state = \<lparr>name = [], position = [], velocity = []\<rparr>,
      state_is_valid = False,
      controllers =
        [\<lparr>chain_name = ''arm'', chain_planning_group = ''arm_group'', joint_names = [''shoulder'', ''elbow'']\<rparr>,
         \<lparr>chain_name = ''head'', chain_planning_group = [], joint_names = [''pan'']\<rparr>,
         \<lparr>chain_name = ''arm'', chain_planning_group = ''other'', joint_names = [''wrist'']\<rparr>],
      duration = 5, velocity_factor = 1, settling_timeout = 0\<rparr>"

definition arm_state :: JointState where
  "arm_state = \<lparr>name = [''elbow'', ''pan'', ''shoulder''], position = [0.5, -1, 2], velocity = [0, 0, 0]\<rparr>"

section \<open>The store: rejected updates, the invariant, latest values\<close>

lemma find_joint_less_iff: "find_joint xs n < length xs \<longleftrightarrow> n \<in> set xs"
  by (induction xs) auto

lemma find_joint_absent: "n \<notin> set xs \<Longrightarrow> find_joint xs n = length xs"
  by (induction xs) auto

lemma find_joint_nth: "n \<in> set xs \<Longrightarrow> xs ! find_joint xs n = n"
  by (induction xs) auto

lemma find_joint_append_present:
  "n \<in> set xs \<Longrightarrow> find_joint (xs @ ys) n = find_joint xs n"
  by (induction xs) auto

lemma find_joint_append_new:
  "n \<notin> set xs \<Longrightarrow> find_joint (xs @ [n]) n = length xs"
  by (induction xs) auto

lemma find_joint_distinct_nth:
  "distinct xs \<Longrightarrow> i < length xs \<Longrightarrow> find_joint xs (xs ! i) = i"
proof (induction xs arbitrary: i)
  case Nil
  then show ?case by simp
next
  case (Cons x xs)
  then show ?case by (cases i) auto
qed

lemma find_joint_inj:
  "n \<in> set xs \<Longrightarrow> find_joint xs n = find_joint xs m \<Longrightarrow> n = m"
  by (metis find_joint_nth find_joint_less_iff)

text \<open>
  C4. A message whose name, position and velocity arrays are not all of the same length
  is dropped as a whole: \<open>stateCallback\<close> returns normally, and the manager it leaves,
  so the store with every entry and the validity flag, is the one it was given.
\<close>

theorem stateCallback_rejects_mismatch:
  "\<not> (length (name msg) = length (position msg) \<and> length (position msg) = length (velocity msg))
   \<Longrightarrow> stateCallback cm msg = Inr cm"
  by (auto simp: stateCallback_def)

theorem stateCallback_rejects_mismatch_witness:
  "\<not> (length (name short_msg) = length (position short_msg)
       \<and> length (position short_msg) = length (velocity short_msg))
   \<and> stateCallback (demo_manager\<lparr>state := demo_store, state_is_valid := True\<rparr>) short_msg =
       Inr (demo_manager\<lparr>state := demo_store, state_is_valid := True\<rparr>)"
  using stateCallback_rejects_mismatch [of short_msg "demo_manager\<lparr>state := demo_store, state_is_valid := True\<rparr>"]
  by (simp add: short_msg_def)

text \<open>One round of the update loop, on a store that satisfies the invariant.\<close>

lemma update_joint_present:
  "store_invariant st \<Longrightarrow> n \<in> set (name st) \<Longrightarrow>
   update_joint st n p v =
     Inr (st\<lparr>position := (position st)[find_joint (name st) n := p],
             velocity := (velocity st)[find_joint (name st) n := v]\<rparr>)"
  using find_joint_less_iff [of "name st" n]
  by (simp add: update_joint_def store_invariant_def Let_def)

lemma update_joint_new:
  "n \<notin> set (name st) \<Longrightarrow>
   update_joint st n p v =
     Inr (st\<lparr>name := name st @ [n], position := position st @ [p], velocity := velocity st @ [v]\<rparr>)"
  by (simp add: update_joint_def find_joint_absent Let_def)

lemma update_joint_step:
  assumes inv: "store_invariant st"
  shows "\<exists>st'. update_joint st n p v = Inr st'
           \<and> store_invariant st'
           \<and> set (name st') = insert n (set (name st))
           \<and> take (length (name st)) (name st') = name st
           \<and> position_of st' n = p \<and> velocity_of st' n = v
           \<and> (\<forall>m. m \<noteq> n \<longrightarrow> m \<in> set (name st) \<longrightarrow>
                 position_of st' m = position_of st m \<and> velocity_of st' m = velocity_of st m)"
proof (cases "n \<in> set (name st)")
  case True
  let ?j = "find_joint (name st) n"
  let ?st' = "st\<lparr>position := (position st)[?j := p], velocity := (velocity st)[?j := v]\<rparr>"
  have j: "?j < length (name st)" using True by (simp add: find_joint_less_iff)
  have other: "?j \<noteq> find_joint (name st) m" if "m \<noteq> n" for m
    using that True find_joint_inj [of n "name st" m] by auto
  have "update_joint st n p v = Inr ?st'"
    using inv True by (rule update_joint_present)
  moreover have "store_invariant ?st'"
    using inv by (simp add: store_invariant_def)
  moreover have "set (name ?st') = insert n (set (name st))"
    using True by auto
  moreover have "position_of ?st' n = p \<and> velocity_of ?st' n = v"
    using j inv by (simp add: position_of_def velocity_of_def store_invariant_def)
  moreover have "\<forall>m. m \<noteq> n \<longrightarrow> m \<in> set (name st) \<longrightarrow>
                 position_of ?st' m = position_of st m \<and> velocity_of ?st' m = velocity_of st m"
    using other by (simp add: position_of_def velocity_of_def)
  ultimately show ?thesis by simp
next
  case False
  let ?st' = "st\<lparr>name := name st @ [n], position := position st @ [p], velocity := velocity st @ [v]\<rparr>"
  have lp: "length (position st) = length (name st)" and lv: "length (velocity st) = length (name st)"
    using inv by (simp_all add: store_invariant_def)
  have "update_joint st n p v = Inr ?st'"
    using False by (rule update_joint_new)
  moreover have "store_invariant ?st'"
    using inv False by (simp add: store_invariant_def)
  moreover have "position_of ?st' n = p \<and> velocity_of ?st' n = v"
    using False lp lv
    by (simp add: position_of_def velocity_of_def find_joint_append_new nth_append)
  moreover have "\<forall>m. m \<noteq> n \<longrightarrow> m \<in> set (name st) \<longrightarrow>
                 position_of ?st' m = position_of st m \<and> velocity_of ?st' m = velocity_of st m"
  proof (intro allI impI)
    fix m assume "m \<noteq> n" and m: "m \<in> set (name st)"
    then have "find_joint (name st @ [n]) m = find_joint (name st) m"
      by (simp add: find_joint_append_present)
    moreover have "find_joint (name st) m < length (name st)"
      using m by (simp add: find_joint_less_iff)
    ultimately show "position_of ?st' m = position_of st m \<and> velocity_of ?st' m = velocity_of st m"
      using lp lv by (simp add: position_of_def velocity_of_def nth_append)
  qed
  ultimately show ?thesis by simp
qed

text \<open>
  The update loop from message index \<open>j\<close> on: it never fails, keeps the invariant and
  the old entries' indices, stores for every name of the message the values of its last
  occurrence, and leaves the joints the message does not name as they were.
\<close>

lemma update_loop_spec:
  assumes "store_invariant st"
  shows "\<exists>st'. update_loop msg st j = Inr st'
           \<and> store_invariant st'
           \<and> set (name st') = set (name st) \<union> {name msg ! k | k. j \<le> k \<and> k < length (name msg)}
           \<and> take (length (name st)) (name st') = name st
           \<and> (\<forall>k. j \<le> k \<and> k < length (name msg)
                   \<and> (\<forall>k'. k < k' \<and> k' < length (name msg) \<longrightarrow> name msg ! k' \<noteq> name msg ! k) \<longrightarrow>
                 position_of st' (name msg ! k) = position msg ! k
                 \<and> velocity_of st' (name msg ! k) = velocity msg ! k)
           \<and> (\<forall>n. n \<in> set (name st) \<and> (\<forall>k. j \<le> k \<and> k < length (name msg) \<longrightarrow> name msg ! k \<noteq> n) \<longrightarrow>
                 position_of st' n = position_of st n \<and> velocity_of st' n = velocity_of st n)"
  using assms
proof (induction msg st j rule: update_loop.induct)
  case (1 msg st j)
  show ?case
  proof (cases "j < length (name msg)")
    case False
    then show ?thesis using "1.prems" by (subst update_loop.simps) auto
  next
    case True
    let ?n = "name msg ! j" and ?p = "position msg ! j" and ?v = "velocity msg ! j"
    from update_joint_step [OF "1.prems", of ?n ?p ?v]
    obtain s1 where s1: "update_joint st ?n ?p ?v = Inr s1"
      and inv1: "store_invariant s1"
      and names1: "set (name s1) = insert ?n (set (name st))"
      and pre1: "take (length (name st)) (name s1) = name st"
      and here1: "position_of s1 ?n = ?p" "velocity_of s1 ?n = ?v"
      and other1: "\<And>m. m \<noteq> ?n \<Longrightarrow> m \<in> set (name st) \<Longrightarrow>
                 position_of s1 m = position_of st m \<and> velocity_of s1 m = velocity_of st m"
      by blast
    from "1.IH" [OF True s1 inv1]
    obtain st' where st': "update_loop msg s1 (Suc j) = Inr st'"
      and inv': "store_invariant st'"
      and names': "set (name st') = set (name s1) \<union> {name msg ! k | k. Suc j \<le> k \<and> k < length (name msg)}"
      and pre': "take (length (name s1)) (name st') = name s1"
      and last': "\<And>k. Suc j \<le> k \<Longrightarrow> k < length (name msg)
                   \<Longrightarrow> (\<forall>k'. k < k' \<and> k' < length (name msg) \<longrightarrow> name msg ! k' \<noteq> name msg ! k) \<Longrightarrow>
                 position_of st' (name msg ! k) = position msg ! k
                 \<and> velocity_of st' (name msg ! k) = velocity msg ! k"
      and keep': "\<And>n. n \<in> set (name s1) \<Longrightarrow> (\<forall>k. Suc j \<le> k \<and> k < length (name msg) \<longrightarrow> name msg ! k \<noteq> n) \<Longrightarrow>
                 position_of st' n = position_of s1 n \<and> velocity_of st' n = velocity_of s1 n"
      by blast
    have res: "update_loop msg st j = Inr st'"
      using True s1 st' by (subst update_loop.simps) simp
    have names: "set (name st') = set (name st) \<union> {name msg ! k | k. j \<le> k \<and> k < length (name msg)}"
    proof -
      have "{name msg ! k | k. j \<le> k \<and> k < length (name msg)}
          = insert ?n {name msg ! k | k. Suc j \<le> k \<and> k < length (name msg)}"
        using True by (auto simp: Suc_le_eq le_less)
      then show ?thesis using names' names1 by auto
    qed
    have pre: "take (length (name st)) (name st') = name st"
    proof -
      have "length (name st) \<le> length (name s1)"
        using pre1 by (metis length_take min.cobounded2 min.commute)
      then have "take (length (name st)) (name st') = take (length (name st)) (take (length (name s1)) (name st'))"
        by (simp add: min_def)
      then show ?thesis using pre' pre1 by simp
    qed
    have last: "position_of st' (name msg ! k) = position msg ! k
                 \<and> velocity_of st' (name msg ! k) = velocity msg ! k"
      if k: "j \<le> k" "k < length (name msg)"
        and nolater: "\<forall>k'. k < k' \<and> k' < length (name msg) \<longrightarrow> name msg ! k' \<noteq> name msg ! k" for k
    proof (cases "k = j")
      case False
      with k have "Suc j \<le> k" by simp
      then show ?thesis using k nolater by (intro last') auto
    next
      case keq: True
      have "?n \<in> set (name s1)" using names1 by simp
      moreover have "\<forall>k. Suc j \<le> k \<and> k < length (name msg) \<longrightarrow> name msg ! k \<noteq> ?n"
        using nolater keq by auto
      ultimately have "position_of st' ?n = position_of s1 ?n \<and> velocity_of st' ?n = velocity_of s1 ?n"
        by (rule keep')
      then show ?thesis using here1 keq by simp
    qed
    have keep: "position_of st' n = position_of st n \<and> velocity_of st' n = velocity_of st n"
      if n: "n \<in> set (name st)" and untouched: "\<forall>k. j \<le> k \<and> k < length (name msg) \<longrightarrow> name msg ! k \<noteq> n" for n
    proof -
      have neq: "n \<noteq> ?n" using untouched True by auto
      have "n \<in> set (name s1)" using n names1 by simp
      moreover have "\<forall>k. Suc j \<le> k \<and> k < length (name msg) \<longrightarrow> name msg ! k \<noteq> n"
        using untouched by auto
      ultimately have "position_of st' n = position_of s1 n \<and> velocity_of st' n = velocity_of s1 n"
        by (rule keep')
      then show ?thesis using other1 [OF neq n] by simp
    qed
    show ?thesis
      using res inv' names pre last keep by blast
  qed
qed

lemma update_loop_spec0:
  assumes "store_invariant st"
  shows "\<exists>st'. update_loop msg st 0 = Inr st'
           \<and> store_invariant st'
           \<and> set (name st') = set (name st) \<union> set (name msg)
           \<and> take (length (name st)) (name st') = name st
           \<and> (\<forall>k. k < length (name msg)
                   \<and> (\<forall>k'. k < k' \<and> k' < length (name msg) \<longrightarrow> name msg ! k' \<noteq> name msg ! k) \<longrightarrow>
                 position_of st' (name msg ! k) = position msg ! k
                 \<and> velocity_of st' (name msg ! k) = velocity msg ! k)
           \<and> (\<forall>n. n \<in> set (name st) \<and> n \<notin> set (name msg) \<longrightarrow>
                 position_of st' n = position_of st n \<and> velocity_of st' n = velocity_of st n)"
proof -
  have "{name msg ! k | k. k < length (name msg)} = set (name msg)"
    by (auto simp: in_set_conv_nth)
  moreover have "(\<forall>k. k < length (name msg) \<longrightarrow> name msg ! k \<noteq> n) \<longleftrightarrow> n \<notin> set (name msg)" for n
    by (auto simp: in_set_conv_nth)
  ultimately show ?thesis
    using update_loop_spec [OF assms, of msg 0] by simp
qed

lemma stateCallback_invariant:
  assumes "store_invariant (state cm)"
  shows "\<exists>cm'. stateCallback cm msg = Inr cm' \<and> store_invariant (state cm')"
proof -
  from update_loop_spec0 [OF assms, of msg]
  obtain st' where "update_loop msg (state cm) 0 = Inr st'" "store_invariant st'" by blast
  then show ?thesis using assms by (auto simp: stateCallback_def)
qed

lemma run_invariant:
  "store_invariant (state cm) \<Longrightarrow>
   \<exists>cm' snaps. run cm ops = Inr (cm', snaps) \<and> store_invariant (state cm')
      \<and> (\<forall>s \<in> set snaps. store_invariant (fst s))"
proof (induction ops arbitrary: cm)
  case Nil
  then show ?case by simp
next
  case (Cons op ops)
  show ?case
  proof (cases op)
    case (StateCallback msg)
    from stateCallback_invariant [OF Cons.prems, of msg]
    obtain cm1 where cm1: "stateCallback cm msg = Inr cm1" "store_invariant (state cm1)" by blast
    from Cons.IH [OF cm1(2)] show ?thesis using cm1(1) StateCallback by auto
  next
    case GetState
    from Cons.IH [OF Cons.prems] show ?thesis using GetState Cons.prems
      by (auto simp: getState_def)
  qed
qed

text \<open>
  C9. From the empty store of a new manager, every sequence of \<open>stateCallback\<close> and
  \<open>getState\<close> calls runs without failure, and the store it leaves, like every snapshot
  \<open>getState\<close> returned on the way, has name, position and velocity arrays of one length
  and no joint name twice.
\<close>

theorem store_invariant_always:
  "state cm = initial_state \<Longrightarrow>
   \<exists>cm' snaps. run cm ops = Inr (cm', snaps) \<and> store_invariant (state cm')
      \<and> (\<forall>s \<in> set snaps. store_invariant (fst s))"
  by (rule run_invariant) (simp add: store_invariant_def initial_state_def)

theorem store_invariant_always_witness:
  "state demo_manager = initial_state
   \<and> (\<exists>cm' snaps.
        run demo_manager [StateCallback demo_msg, GetState, StateCallback short_msg, StateCallback demo_msg]
          = Inr (cm', snaps)
        \<and> store_invariant (state cm'))"
  using store_invariant_always [of demo_manager
      "[StateCallback demo_msg, GetState, StateCallback short_msg, StateCallback demo_msg]"]
  by (auto simp: demo_manager_def initial_state_def)

text \<open>A second pass of the same message changes nothing.\<close>

lemma last_occurrence:
  "n \<in> set xs \<Longrightarrow> \<exists>k<length xs. xs ! k = n \<and> (\<forall>k'. k < k' \<and> k' < length xs \<longrightarrow> xs ! k' \<noteq> n)"
proof (induction xs rule: rev_induct)
  case Nil
  then show ?case by simp
next
  case (snoc x xs)
  show ?case
  proof (cases "x = n")
    case True
    then show ?thesis by (intro exI [of _ "length xs"]) (auto simp: nth_append)
  next
    case False
    with snoc.prems have "n \<in> set xs" by simp
    from snoc.IH [OF this] obtain k where k: "k < length xs" "xs ! k = n"
      "\<forall>k'. k < k' \<and> k' < length xs \<longrightarrow> xs ! k' \<noteq> n" by blast
    have "(xs @ [x]) ! k = n" using k by (simp add: nth_append)
    moreover have "\<forall>k'. k < k' \<and> k' < length (xs @ [x]) \<longrightarrow> (xs @ [x]) ! k' \<noteq> n"
      using k False by (auto simp: nth_append less_Suc_eq)
    ultimately show ?thesis using k(1) by (intro exI [of _ k]) simp
  qed
qed

lemma same_names:
  assumes "distinct xs" "distinct ys" "set ys = set xs" "take (length xs) ys = xs"
  shows "ys = xs"
proof -
  have "card (set ys) = length ys" "card (set xs) = length xs"
    using assms(1,2) by (simp_all add: distinct_card)
  then have "length ys = length xs"
    using assms(3) by simp
  then show ?thesis using assms(4) by simp
qed

lemma store_eqI:
  assumes inv: "store_invariant s" and inv': "store_invariant s'"
    and names: "name s' = name s"
    and vals: "\<And>n. n \<in> set (name s) \<Longrightarrow> position_of s' n = position_of s n \<and> velocity_of s' n = velocity_of s n"
    and more: "JointState.more s' = JointState.more s"
  shows "s' = s"
proof -
  have len: "length (position s) = length (name s)" "length (velocity s) = length (name s)"
    "length (position s') = length (name s)" "length (velocity s') = length (name s)"
    using inv inv' names by (simp_all add: store_invariant_def)
  have d: "distinct (name s)" using inv by (simp add: store_invariant_def)
  have at: "position s' ! i = position s ! i \<and> velocity s' ! i = velocity s ! i" if "i < length (name s)" for i
  proof -
    have "find_joint (name s) (name s ! i) = i" using d that by (rule find_joint_distinct_nth)
    moreover have "name s ! i \<in> set (name s)" using that by simp
    ultimately show ?thesis using vals [of "name s ! i"] names
      by (simp add: position_of_def velocity_of_def)
  qed
  have "position s' = position s" using len at by (intro nth_equalityI) simp_all
  moreover have "velocity s' = velocity s" using len at by (intro nth_equalityI) simp_all
  ultimately show ?thesis using names more by (intro JointState.equality) simp_all
qed

lemma update_loop_more:
  "update_loop msg st j = Inr st' \<Longrightarrow> JointState.more st' = JointState.more st"
proof (induction msg st j arbitrary: st' rule: update_loop.induct)
  case (1 msg st j)
  show ?case
  proof (cases "j < length (name msg)")
    case False
    with "1.prems" show ?thesis by (subst (asm) update_loop.simps) simp
  next
    case True
    with "1.prems" obtain s1 where s1: "update_joint st (name msg ! j) (position msg ! j) (velocity msg ! j) = Inr s1"
      and st': "update_loop msg s1 (Suc j) = Inr st'"
      by (subst (asm) update_loop.simps) (auto split: sum.splits)
    have "JointState.more s1 = JointState.more st"
      using s1 by (auto simp: update_joint_def Let_def split: if_splits)
    with "1.IH" [OF True s1 st'] show ?thesis by simp
  qed
qed

lemma update_loop_idem:
  assumes inv: "store_invariant st" and res: "update_loop msg st 0 = Inr st'"
  shows "update_loop msg st' 0 = Inr st'"
proof -
  from update_loop_spec0 [OF inv, of msg]
  obtain s1 where s1: "update_loop msg st 0 = Inr s1"
    and inv1: "store_invariant s1"
    and names1: "set (name s1) = set (name st) \<union> set (name msg)"
    and last1: "\<And>k. k < length (name msg)
                   \<Longrightarrow> (\<forall>k'. k < k' \<and> k' < length (name msg) \<longrightarrow> name msg ! k' \<noteq> name msg ! k) \<Longrightarrow>
                 position_of s1 (name msg ! k) = position msg ! k
                 \<and> velocity_of s1 (name msg ! k) = velocity msg ! k"
    by blast
  from s1 res have eq: "s1 = st'" by simp
  note inv' = inv1 [unfolded eq] and names' = names1 [unfolded eq] and last' = last1 [unfolded eq]
  from update_loop_spec0 [OF inv', of msg]
  obtain s2 where s2: "update_loop msg st' 0 = Inr s2"
    and inv2: "store_invariant s2"
    and names2: "set (name s2) = set (name st') \<union> set (name msg)"
    and pre2: "take (length (name st')) (name s2) = name st'"
    and last2: "\<And>k. k < length (name msg)
                   \<Longrightarrow> (\<forall>k'. k < k' \<and> k' < length (name msg) \<longrightarrow> name msg ! k' \<noteq> name msg ! k) \<Longrightarrow>
                 position_of s2 (name msg ! k) = position msg ! k
                 \<and> velocity_of s2 (name msg ! k) = velocity msg ! k"
    and keep2: "\<And>n. n \<in> set (name st') \<Longrightarrow> n \<notin> set (name msg) \<Longrightarrow>
                 position_of s2 n = position_of st' n \<and> velocity_of s2 n = velocity_of st' n"
    by blast
  have d1: "distinct (name st')" using inv' by (simp add: store_invariant_def)
  have d2: "distinct (name s2)" using inv2 by (simp add: store_invariant_def)
  have "set (name msg) \<subseteq> set (name st')" by (simp add: names')
  then have seteq: "set (name s2) = set (name st')" unfolding names2 by blast
  have names: "name s2 = name st'" using d1 d2 seteq pre2 by (rule same_names)
  have vals: "position_of s2 n = position_of st' n \<and> velocity_of s2 n = velocity_of st' n"
    if "n \<in> set (name st')" for n
  proof (cases "n \<in> set (name msg)")
    case True
    from last_occurrence [OF this] obtain k where k: "k < length (name msg)" "name msg ! k = n"
      "\<forall>k'. k < k' \<and> k' < length (name msg) \<longrightarrow> name msg ! k' \<noteq> n" by blast
    then show ?thesis using last' [of k] last2 [of k] by simp
  next
    case False
    with that show ?thesis by (rule keep2)
  qed
  have "JointState.more s2 = JointState.more st'" using s2 by (rule update_loop_more)
  with inv' inv2 names vals have "s2 = st'" by (intro store_eqI) auto
  with s2 show ?thesis by simp
qed

lemma update_loop_step:
  "j < length (name msg)
   \<Longrightarrow> update_joint st (name msg ! j) (position msg ! j) (velocity msg ! j) = Inr st'
   \<Longrightarrow> update_loop msg st j = update_loop msg st' (Suc j)"
  by (subst update_loop.simps) simp

lemma update_loop_done: "\<not> j < length (name msg) \<Longrightarrow> update_loop msg st j = Inr st"
  by (subst update_loop.simps) simp

text \<open>
  C5. For a message with arrays of equal length, on a store that satisfies the invariant,
  \<open>stateCallback\<close> succeeds and sets the validity flag. In the snapshot taken afterwards
  every joint the message names holds the position and velocity of its last occurrence in
  the message; a joint already in the store keeps its index (its entry is overwritten), a
  new name is appended behind the old entries; joints the message does not name are
  unchanged. Applying the same message again leaves the manager as it is.
\<close>

theorem stateCallback_latest_values:
  assumes inv: "store_invariant (state cm)"
    and lens: "length (name msg) = length (position msg)" "length (position msg) = length (velocity msg)"
  shows "\<exists>cm'. stateCallback cm msg = Inr cm'
           \<and> cm' = cm\<lparr>state := fst (getState cm'), state_is_valid := True\<rparr>
           \<and> snd (getState cm') = True
           \<and> store_invariant (fst (getState cm'))
           \<and> set (name (fst (getState cm'))) = set (name (state cm)) \<union> set (name msg)
           \<and> take (length (name (state cm))) (name (fst (getState cm'))) = name (state cm)
           \<and> (\<forall>k. k < length (name msg)
                   \<and> (\<forall>k'. k < k' \<and> k' < length (name msg) \<longrightarrow> name msg ! k' \<noteq> name msg ! k) \<longrightarrow>
                 position_of (fst (getState cm')) (name msg ! k) = position msg ! k
                 \<and> velocity_of (fst (getState cm')) (name msg ! k) = velocity msg ! k)
           \<and> (\<forall>n. n \<in> set (name (state cm)) \<and> n \<notin> set (name msg) \<longrightarrow>
                 position_of (fst (getState cm')) n = position_of (state cm) n
                 \<and> velocity_of (fst (getState cm')) n = velocity_of (state cm) n)
           \<and> stateCallback cm' msg = Inr cm'"
proof -
  from update_loop_spec0 [OF inv, of msg]
  obtain st' where st': "update_loop msg (state cm) 0 = Inr st'"
    and inv': "store_invariant st'"
    and names': "set (name st') = set (name (state cm)) \<union> set (name msg)"
    and pre': "take (length (name (state cm))) (name st') = name (state cm)"
    and last': "\<forall>k. k < length (name msg)
                   \<and> (\<forall>k'. k < k' \<and> k' < length (name msg) \<longrightarrow> name msg ! k' \<noteq> name msg ! k) \<longrightarrow>
                 position_of st' (name msg ! k) = position msg ! k
                 \<and> velocity_of st' (name msg ! k) = velocity msg ! k"
    and keep': "\<forall>n. n \<in> set (name (state cm)) \<and> n \<notin> set (name msg) \<longrightarrow>
                 position_of st' n = position_of (state cm) n \<and> velocity_of st' n = velocity_of (state cm) n"
    by blast
  let ?cm' = "cm\<lparr>state := st', state_is_valid := True\<rparr>"
  have snap: "getState ?cm' = (st', True)"
    by (simp add: getState_def)
  have call: "stateCallback cm msg = Inr ?cm'"
    using lens st' by (simp add: stateCallback_def)
  have again: "stateCallback ?cm' msg = Inr ?cm'"
    using lens update_loop_idem [OF inv st'] by (simp add: stateCallback_def)
  show ?thesis
  proof (intro exI [of _ ?cm'] conjI)
    show "stateCallback cm msg = Inr ?cm'" by (rule call)
    show "?cm' = cm\<lparr>state := fst (getState ?cm'), state_is_valid := True\<rparr>" by (simp add: snap)
    show "snd (getState ?cm') = True" by (simp add: snap)
    show "store_invariant (fst (getState ?cm'))" using inv' by (simp add: snap)
    show "set (name (fst (getState ?cm'))) = set (name (state cm)) \<union> set (name msg)"
      using names' by (simp add: snap)
    show "take (length (name (state cm))) (name (fst (getState ?cm'))) = name (state cm)"
      using pre' by (simp add: snap)
    show "\<forall>k. k < length (name msg)
                   \<and> (\<forall>k'. k < k' \<and> k' < length (name msg) \<longrightarrow> name msg ! k' \<noteq> name msg ! k) \<longrightarrow>
                 position_of (fst (getState ?cm')) (name msg ! k) = position msg ! k
                 \<and> velocity_of (fst (getState ?cm')) (name msg ! k) = velocity msg ! k"
      using last' unfolding snap fst_conv .
    show "\<forall>n. n \<in> set (name (state cm)) \<and> n \<notin> set (name msg) \<longrightarrow>
                 position_of (fst (getState ?cm')) n = position_of (state cm) n
                 \<and> velocity_of (fst (getState ?cm')) n = velocity_of (state cm) n"
      using keep' unfolding snap fst_conv .
    show "stateCallback ?cm' msg = Inr ?cm'" by (rule again)
  qed
qed

theorem stateCallback_latest_values_witness:
  "store_invariant (state (demo_manager\<lparr>state := demo_store\<rparr>))
   \<and> length (name demo_msg) = length (position demo_msg)
   \<and> length (position demo_msg) = length (velocity demo_msg)
   \<and> stateCallback (demo_manager\<lparr>state := demo_store\<rparr>) demo_msg =
       Inr (demo_manager
              \<lparr>state := \<lparr>name = [''torso_lift'', ''shoulder'', ''elbow''],
                          position = [0.1, 3, 2], velocity = [0, 0.25, 0]\<rparr>,
               state_is_valid := True\<rparr>)
   \<and> position_of \<lparr>name = [''torso_lift'', ''shoulder'', ''elbow''],
                   position = [0.1, 3, 2], velocity = [0, 0.25, 0]\<rparr> ''shoulder'' = position demo_msg ! 2"
proof -
  let ?cm = "demo_manager\<lparr>state := demo_store\<rparr>"
  let ?st' = "\<lparr>name = [''torso_lift'', ''shoulder'', ''elbow''],
                          position = [0.1, 3, 2], velocity = [0, 0.25, 0]\<rparr>"
  have inv: "store_invariant (state ?cm)"
    by (simp add: store_invariant_def demo_store_def)
  have lens: "length (name demo_msg) = length (position demo_msg)"
    "length (position demo_msg) = length (velocity demo_msg)"
    by (simp_all add: demo_msg_def)
  have s1: "update_loop demo_msg demo_store 0 =
      update_loop demo_msg \<lparr>name = [''torso_lift'', ''shoulder''], position = [0.1, 1], velocity = [0, 0.5]\<rparr> (Suc 0)"
    by (rule update_loop_step) (simp_all add: demo_msg_def demo_store_def update_joint_def)
  have s2: "update_loop demo_msg \<lparr>name = [''torso_lift'', ''shoulder''], position = [0.1, 1], velocity = [0, 0.5]\<rparr> (Suc 0) =
      update_loop demo_msg \<lparr>name = [''torso_lift'', ''shoulder'', ''elbow''], position = [0.1, 1, 2], velocity = [0, 0.5, 0]\<rparr> (Suc (Suc 0))"
    by (rule update_loop_step) (simp_all add: demo_msg_def update_joint_def)
  have s3: "update_loop demo_msg \<lparr>name = [''torso_lift'', ''shoulder'', ''elbow''], position = [0.1, 1, 2], velocity = [0, 0.5, 0]\<rparr> (Suc (Suc 0)) =
      update_loop demo_msg ?st' (Suc (Suc (Suc 0)))"
    by (rule update_loop_step) (simp_all add: demo_msg_def update_joint_def)
  have s4: "update_loop demo_msg ?st' (Suc (Suc (Suc 0))) = Inr ?st'"
    by (rule update_loop_done) (simp add: demo_msg_def)
  have loop: "update_loop demo_msg demo_store 0 = Inr ?st'"
    using s1 s2 s3 s4 by simp
  have run: "stateCallback ?cm demo_msg = Inr (?cm\<lparr>state := ?st', state_is_valid := True\<rparr>)"
    using lens loop by (simp add: stateCallback_def)
  from stateCallback_latest_values [OF inv lens]
  obtain cm' where cm': "stateCallback ?cm demo_msg = Inr cm'"
    and latest: "\<forall>k. k < length (name demo_msg)
                   \<and> (\<forall>k'. k < k' \<and> k' < length (name demo_msg) \<longrightarrow> name demo_msg ! k' \<noteq> name demo_msg ! k) \<longrightarrow>
                 position_of (fst (getState cm')) (name demo_msg ! k) = position demo_msg ! k
                 \<and> velocity_of (fst (getState cm')) (name demo_msg ! k) = velocity demo_msg ! k"
    by blast
  from cm' run have "cm' = ?cm\<lparr>state := ?st', state_is_valid := True\<rparr>" by simp
  then have eq: "fst (getState cm') = ?st'" by (simp add: getState_def)
  have "2 < length (name demo_msg)
                   \<and> (\<forall>k'. 2 < k' \<and> k' < length (name demo_msg) \<longrightarrow> name demo_msg ! k' \<noteq> name demo_msg ! 2)"
    by (simp add: demo_msg_def)
  with latest have "position_of (fst (getState cm')) (name demo_msg ! 2) = position demo_msg ! 2"
    by blast
  then have "position_of ?st' ''shoulder'' = position demo_msg ! 2"
    unfolding eq by (simp add: demo_msg_def)
  with inv lens run show ?thesis by (simp add: demo_manager_def)
qed

section \<open>\<open>makePoint\<close>: covered and missing joints\<close>

lemma makePoint_loop_covered:
  "set joints \<subseteq> set (name st) \<Longrightarrow> length (name st) \<le> length (position st)
   \<Longrightarrow> length (velocities p) = length (positions p)
   \<Longrightarrow> makePoint_loop st joints p =
       Inr (p\<lparr>positions := positions p @ map (\<lambda>n. position st ! find_joint (name st) n) joints,
              velocities := velocities p @ replicate (length joints) 0,
              accelerations := accelerations p @ replicate (length joints) 0\<rparr>)"
proof (induction joints arbitrary: p)
  case Nil
  then show ?case by simp
next
  case (Cons jn joints)
  from Cons.prems have in_st: "find_joint (name st) jn < length (name st)"
    by (simp add: find_joint_less_iff)
  with Cons.prems have in_pos: "find_joint (name st) jn < length (position st)"
    by simp
  let ?p2 = "p\<lparr>positions := positions p @ [position st ! find_joint (name st) jn],
               velocities := velocities p @ [0], accelerations := accelerations p @ [0]\<rparr>"
  have "makePoint_loop st (jn # joints) p = makePoint_loop st joints ?p2"
    using in_st in_pos Cons.prems(3) by (simp add: Let_def)
  also have "\<dots> = Inr (?p2\<lparr>positions := positions ?p2 @ map (\<lambda>n. position st ! find_joint (name st) n) joints,
              velocities := velocities ?p2 @ replicate (length joints) 0,
              accelerations := accelerations ?p2 @ replicate (length joints) 0\<rparr>)"
    using Cons.prems by (intro Cons.IH) auto
  finally show ?case by (simp add: replicate_app_Cons_same)
qed

lemma makePoint_loop_missing_no_point:
  "\<not> set joints \<subseteq> set (name st) \<Longrightarrow> length (velocities p) = length (positions p)
   \<Longrightarrow> makePoint_loop st joints p \<noteq> Inr q"
proof (induction joints arbitrary: p)
  case Nil
  then show ?case by simp
next
  case (Cons jn joints)
  show ?case
  proof (cases "jn \<in> set (name st)")
    case True
    then have lt: "find_joint (name st) jn < length (name st)"
      by (simp add: find_joint_less_iff)
    from True Cons.prems have rest: "\<not> set joints \<subseteq> set (name st)" by auto
    show ?thesis
    proof (cases "find_joint (name st) jn < length (position st)")
      case True
      let ?p2 = "p\<lparr>positions := positions p @ [position st ! find_joint (name st) jn],
               velocities := velocities p @ [0], accelerations := accelerations p @ [0]\<rparr>"
      have "makePoint_loop st (jn # joints) p = makePoint_loop st joints ?p2"
        using lt True Cons.prems(2) by (simp add: Let_def)
      moreover have "makePoint_loop st joints ?p2 \<noteq> Inr q"
        using rest Cons.prems(2) by (intro Cons.IH) auto
      ultimately show ?thesis by simp
    next
      case False
      with lt show ?thesis by (simp add: Let_def)
    qed
  next
    case False
    then have "find_joint (name st) jn = length (name st)" by (rule find_joint_absent)
    with Cons.prems(2) show ?thesis by (simp add: Let_def)
  qed
qed

lemma makePoint_loop_missing_exit:
  "i < length joints \<Longrightarrow> joints ! i \<notin> set (name st) \<Longrightarrow> \<forall>k<i. joints ! k \<in> set (name st)
   \<Longrightarrow> length (name st) \<le> length (position st)
   \<Longrightarrow> length (velocities p) = length (positions p)
   \<Longrightarrow> makePoint_loop st joints p = Inl (ProcessExit (joints ! i))"
proof (induction joints arbitrary: p i)
  case Nil
  then show ?case by simp
next
  case (Cons jn joints)
  show ?case
  proof (cases i)
    case 0
    with Cons.prems have "find_joint (name st) jn = length (name st)"
      by (simp add: find_joint_absent)
    with Cons.prems 0 show ?thesis by (simp add: Let_def)
  next
    case (Suc m)
    with Cons.prems have "jn \<in> set (name st)" by auto
    then have lt: "find_joint (name st) jn < length (name st)"
      by (simp add: find_joint_less_iff)
    with Cons.prems have lt': "find_joint (name st) jn < length (position st)" by simp
    let ?p2 = "p\<lparr>positions := positions p @ [position st ! find_joint (name st) jn],
               velocities := velocities p @ [0], accelerations := accelerations p @ [0]\<rparr>"
    have "makePoint_loop st (jn # joints) p = makePoint_loop st joints ?p2"
      using lt lt' Cons.prems(5) by (simp add: Let_def)
    also have "\<dots> = Inl (ProcessExit (joints ! m))"
      using Cons.prems Suc by (intro Cons.IH) auto
    finally show ?thesis using Suc by simp
  qed
qed

text \<open>
  C7. When every name of the joint list is a name of the state (and the state has a
  position for each of its names), \<open>makePoint\<close> returns a point whose positions,
  velocities and accelerations have the length of the joint list: the positions are those
  of the state, in the order of the joint list, and every velocity and acceleration is zero.
\<close>

theorem makePoint_covered:
  "set joints \<subseteq> set (name st) \<Longrightarrow> length (name st) \<le> length (position st)
   \<Longrightarrow> \<exists>p. makePoint st joints = Inr p
        \<and> length (positions p) = length joints
        \<and> length (velocities p) = length joints
        \<and> length (accelerations p) = length joints
        \<and> positions p = map (\<lambda>n. position st ! find_joint (name st) n) joints
        \<and> velocities p = replicate (length joints) 0
        \<and> accelerations p = replicate (length joints) 0"
  by (simp add: makePoint_def makePoint_loop_covered)

theorem makePoint_covered_witness:
  "set [''shoulder'', ''elbow''] \<subseteq> set (name arm_state)
   \<and> length (name arm_state) \<le> length (position arm_state)
   \<and> makePoint arm_state [''shoulder'', ''elbow''] =
       Inr \<lparr>positions = [2, 0.5], velocities = [0, 0], accelerations = [0, 0], time_from_start = 0\<rparr>"
  using makePoint_covered [of "[''shoulder'', ''elbow'']" arm_state]
  by (simp add: arm_state_def makePoint_def)

text \<open>
  C6, as amended. When the joint list holds a name that the state does not have,
  \<open>makePoint\<close> never returns a point, so no shorter point and no skipped entry reaches
  the caller. On a state with a position for each of its names the call ends at the first
  missing joint in \<^verbatim>\<open>exit(-1)\<close>, after logging that joint: the process is terminated, and
  no error is handed to the caller.
\<close>

theorem makePoint_missing_joint:
  "i < length joints \<Longrightarrow> joints ! i \<notin> set (name st)
   \<Longrightarrow> (\<forall>p. makePoint st joints \<noteq> Inr p)
       \<and> ((\<forall>k<i. joints ! k \<in> set (name st)) \<and> length (name st) \<le> length (position st)
            \<longrightarrow> makePoint st joints = Inl (ProcessExit (joints ! i)))"
proof -
  assume i: "i < length joints" and miss: "joints ! i \<notin> set (name st)"
  then have "\<not> set joints \<subseteq> set (name st)" by (auto simp: subset_eq)
  then have "\<forall>p. makePoint st joints \<noteq> Inr p"
    unfolding makePoint_def by (intro allI makePoint_loop_missing_no_point) simp_all
  moreover have "(\<forall>k<i. joints ! k \<in> set (name st)) \<and> length (name st) \<le> length (position st)
            \<longrightarrow> makePoint st joints = Inl (ProcessExit (joints ! i))"
    unfolding makePoint_def using i miss by (auto intro: makePoint_loop_missing_exit)
  ultimately show ?thesis by simp
qed

theorem makePoint_missing_joint_witness:
  "(1::nat) < length [''shoulder'', ''wrist'', ''elbow'']
   \<and> [''shoulder'', ''wrist'', ''elbow''] ! 1 \<notin> set (name arm_state)
   \<and> makePoint arm_state [''shoulder'', ''wrist'', ''elbow''] = Inl (ProcessExit ''wrist'')"
  using makePoint_missing_joint [of 1 "[''shoulder'', ''wrist'', ''elbow'']" arm_state]
  by (simp add: arm_state_def less_Suc_eq)

text \<open>
  The claim as stated, that the failure is surfaced to the caller as an error, does not hold:
  for a joint list with the unknown joint \<open>wrist\<close> the process exits inside
  \<open>makePoint\<close>, and \<open>moveToState\<close>, its caller, returns neither true nor false.
\<close>

theorem makePoint_exits_counterexample:
  "makePoint demo_store [''shoulder'', ''wrist''] = Inl (ProcessExit ''wrist'')
   \<and> moveToState (demo_manager\<lparr>controllers :=
          [\<lparr>chain_name = ''arm'', chain_planning_group = [], joint_names = [''shoulder'', ''wrist'']\<rparr>]\<rparr>)
        plan_succeeds (\<lambda>i t. True) demo_store = Inl (ProcessExit ''wrist'')"
  by (simp add: moveToState_def send_goals.simps dispatch_chain_def makePoint_def demo_store_def
      demo_manager_def Let_def)

section \<open>\<open>moveToState\<close>: planning failures and the wait bound\<close>

lemma sent_chains_append: "sent_chains (xs @ ys) = sent_chains xs @ sent_chains ys"
  by (induction xs rule: sent_chains.induct) auto

lemma wait_timeouts_append: "wait_timeouts (xs @ ys) = wait_timeouts xs @ wait_timeouts ys"
  by (induction xs rule: wait_timeouts.induct) auto

lemma sent_chains_wait_results: "sent_chains (wait_results cm w md) = []"
proof -
  have "sent_chains (map (\<lambda>i. WaitForResult i t (w i t)) xs) = []" for t xs
    by (induction xs) auto
  then show ?thesis by (simp add: wait_results_def)
qed

lemma wait_timeouts_wait_results:
  "wait_timeouts (wait_results cm w md) = map (\<lambda>i. (i, md * 1.5)) [0..<length (controllers cm)]"
proof -
  have "wait_timeouts (map (\<lambda>i. WaitForResult i t (w i t)) xs) = map (\<lambda>i. (i, t)) xs" for t xs
    by (induction xs) auto
  then show ?thesis by (simp add: wait_results_def)
qed

lemma dispatch_chain_cases:
  assumes "dispatch_chain cm getResult st i md = Inr (ok, md', es)"
  shows "(ok \<longleftrightarrow> \<not> plan_failed cm getResult i)
       \<and> wait_timeouts es = []
       \<and> (ok \<longrightarrow> sent_chains es = [i]
              \<and> md' = (if shouldPlan (controllers cm ! i)
                       then max md (time_from_start (last (points (planned_trajectory (getResult i)))))
                       else md))
       \<and> (\<not> ok \<longrightarrow> sent_chains es = [] \<and> es \<noteq> [] \<and> last es = MoveGroupWaitForResult 60)"
  using assms
  by (auto simp: dispatch_chain_def plan_failed_def Let_def last_conv_nth
      split: sum.splits if_splits)

lemma dispatch_chain_total:
  assumes "set (joint_names (controllers cm ! i)) \<subseteq> set (name st)"
    and "length (name st) \<le> length (position st)"
    and "shouldPlan (controllers cm ! i) \<and> error_code_val (getResult i) = SUCCESS
         \<longrightarrow> points (planned_trajectory (getResult i)) \<noteq> []"
  shows "\<exists>r. dispatch_chain cm getResult st i md = Inr r"
proof -
  from makePoint_loop_covered [OF assms(1,2)]
  obtain p where "makePoint st (joint_names (controllers cm ! i)) = Inr p"
    by (simp add: makePoint_def)
  then show ?thesis using assms(3)
    by (auto simp: dispatch_chain_def Let_def)
qed

lemma all_from_Suc:
  "P i \<Longrightarrow> \<forall>k. Suc i \<le> k \<and> k < n \<longrightarrow> P k \<Longrightarrow> \<forall>k. i \<le> k \<and> k < n \<longrightarrow> P (k::nat)"
  by (metis Suc_leI le_neq_implies_less)

lemma send_goals_spec:
  "send_goals cm getResult st i md evs = Inr (ok, md', evs') \<Longrightarrow> i \<le> length (controllers cm)
   \<Longrightarrow> \<exists>es. evs' = evs @ es \<and> wait_timeouts es = []
        \<and> (ok \<longleftrightarrow> (\<forall>k. i \<le> k \<and> k < length (controllers cm) \<longrightarrow> \<not> plan_failed cm getResult k))
        \<and> (ok \<longrightarrow> sent_chains es = [i..<length (controllers cm)]
               \<and> md' = fold max
                   (map (\<lambda>k. time_from_start (last (points (planned_trajectory (getResult k)))))
                      (filter (\<lambda>k. shouldPlan (controllers cm ! k)) [i..<length (controllers cm)])) md)
        \<and> (\<not> ok \<longrightarrow> (\<exists>k. i \<le> k \<and> k < length (controllers cm) \<and> plan_failed cm getResult k
                 \<and> (\<forall>k'. i \<le> k' \<and> k' < k \<longrightarrow> \<not> plan_failed cm getResult k')
                 \<and> sent_chains es = [i..<k])
               \<and> es \<noteq> [] \<and> last es = MoveGroupWaitForResult 60)"
proof (induction cm getResult st i md evs arbitrary: ok md' evs' rule: send_goals.induct)
  case (1 cm getResult st i md evs)
  let ?n = "length (controllers cm)"
  show ?case
  proof (cases "i < ?n")
    case False
    with "1.prems" have "i = ?n" by simp
    moreover from False "1.prems"(1) have "ok" "md' = md" "evs' = evs"
      by (subst (asm) send_goals.simps, simp)+
    ultimately show ?thesis by auto
  next
    case True
    from True "1.prems"(1)
    obtain ok1 md1 es1 where d: "dispatch_chain cm getResult st i md = Inr (ok1, md1, es1)"
      and rest: "(if ok1 then send_goals cm getResult st (Suc i) md1 (evs @ es1)
                 else Inr (False, md1, evs @ es1)) = Inr (ok, md', evs')"
      by (subst (asm) send_goals.simps) (auto split: sum.splits prod.splits)
    note dc = dispatch_chain_cases [OF d]
    show ?thesis
    proof (cases ok1)
      case False
      with rest have eq: "ok = False" "md' = md1" "evs' = evs @ es1" by simp_all
      from dc False have failed: "plan_failed cm getResult i" and nosend: "sent_chains es1 = []"
        and nowait: "wait_timeouts es1 = []" and lst: "es1 \<noteq> []" "last es1 = MoveGroupWaitForResult 60"
        by simp_all
      have "i \<le> i \<and> i < ?n \<and> plan_failed cm getResult i
                 \<and> (\<forall>k'. i \<le> k' \<and> k' < i \<longrightarrow> \<not> plan_failed cm getResult k')
                 \<and> sent_chains es1 = [i..<i]"
        using True failed nosend by auto
      then have ex: "\<exists>k. i \<le> k \<and> k < ?n \<and> plan_failed cm getResult k
                 \<and> (\<forall>k'. i \<le> k' \<and> k' < k \<longrightarrow> \<not> plan_failed cm getResult k')
                 \<and> sent_chains es1 = [i..<k]" by blast
      have "\<not> (\<forall>k. i \<le> k \<and> k < ?n \<longrightarrow> \<not> plan_failed cm getResult k)"
        using True failed by blast
      then show ?thesis using eq ex nowait lst by simp
    next
      case ok1: True
      with rest have call: "send_goals cm getResult st (Suc i) md1 (evs @ es1) = Inr (ok, md', evs')"
        by simp
      from dc ok1 have notfailed: "\<not> plan_failed cm getResult i" and send1: "sent_chains es1 = [i]"
        and nowait1: "wait_timeouts es1 = []"
        and md1: "md1 = (if shouldPlan (controllers cm ! i)
                       then max md (time_from_start (last (points (planned_trajectory (getResult i)))))
                       else md)"
        by simp_all
      have le: "Suc i \<le> ?n" using True by simp
      from "1.IH" [OF True d refl refl ok1 call le]
      obtain es where es: "evs' = (evs @ es1) @ es" and nowait: "wait_timeouts es = []"
        and okiff: "ok \<longleftrightarrow> (\<forall>k. Suc i \<le> k \<and> k < ?n \<longrightarrow> \<not> plan_failed cm getResult k)"
        and good: "ok \<longrightarrow> sent_chains es = [Suc i..<?n]
               \<and> md' = fold max
                   (map (\<lambda>k. time_from_start (last (points (planned_trajectory (getResult k)))))
                      (filter (\<lambda>k. shouldPlan (controllers cm ! k)) [Suc i..<?n])) md1"
        and bad: "\<not> ok \<longrightarrow> (\<exists>k. Suc i \<le> k \<and> k < ?n \<and> plan_failed cm getResult k
                 \<and> (\<forall>k'. Suc i \<le> k' \<and> k' < k \<longrightarrow> \<not> plan_failed cm getResult k')
                 \<and> sent_chains es = [Suc i..<k])
               \<and> es \<noteq> [] \<and> last es = MoveGroupWaitForResult 60"
        by blast
      have upt: "[i..<?n] = i # [Suc i..<?n]" using True by (rule upt_conv_Cons)
      have c1: "evs' = evs @ (es1 @ es)" using es by simp
      have c2: "wait_timeouts (es1 @ es) = []" using nowait nowait1 by (simp add: wait_timeouts_append)
      have c3: "ok \<longleftrightarrow> (\<forall>k. i \<le> k \<and> k < ?n \<longrightarrow> \<not> plan_failed cm getResult k)"
      proof -
        have "(\<forall>k. i \<le> k \<and> k < ?n \<longrightarrow> \<not> plan_failed cm getResult k)
            \<longleftrightarrow> (\<forall>k. Suc i \<le> k \<and> k < ?n \<longrightarrow> \<not> plan_failed cm getResult k)"
          using all_from_Suc [of "\<lambda>k. \<not> plan_failed cm getResult k" i ?n, OF notfailed]
          by (auto dest: Suc_leD)
        then show ?thesis using okiff by simp
      qed
      have c4: "ok \<longrightarrow> sent_chains (es1 @ es) = [i..<?n]
               \<and> md' = fold max
                   (map (\<lambda>k. time_from_start (last (points (planned_trajectory (getResult k)))))
                      (filter (\<lambda>k. shouldPlan (controllers cm ! k)) [i..<?n])) md"
        using good send1 md1 upt by (simp add: sent_chains_append max.commute)
      have c5: "\<not> ok \<longrightarrow> (\<exists>k. i \<le> k \<and> k < ?n \<and> plan_failed cm getResult k
                 \<and> (\<forall>k'. i \<le> k' \<and> k' < k \<longrightarrow> \<not> plan_failed cm getResult k')
                 \<and> sent_chains (es1 @ es) = [i..<k])
               \<and> es1 @ es \<noteq> [] \<and> last (es1 @ es) = MoveGroupWaitForResult 60"
      proof
        assume "\<not> ok"
        with bad obtain k where k: "Suc i \<le> k" "k < ?n" "plan_failed cm getResult k"
          "\<forall>k'. Suc i \<le> k' \<and> k' < k \<longrightarrow> \<not> plan_failed cm getResult k'"
          "sent_chains es = [Suc i..<k]" and lst: "es \<noteq> []" "last es = MoveGroupWaitForResult 60"
          by blast
        have "i \<le> k" using k(1) by simp
        moreover have "\<forall>k'. i \<le> k' \<and> k' < k \<longrightarrow> \<not> plan_failed cm getResult k'"
          using notfailed k(4) by (rule all_from_Suc)
        moreover have "sent_chains (es1 @ es) = [i..<k]"
          using k(1,5) send1 by (simp add: sent_chains_append upt_conv_Cons)
        ultimately have "\<exists>k. i \<le> k \<and> k < ?n \<and> plan_failed cm getResult k
                 \<and> (\<forall>k'. i \<le> k' \<and> k' < k \<longrightarrow> \<not> plan_failed cm getResult k')
                 \<and> sent_chains (es1 @ es) = [i..<k]"
          using k(2,3) by blast
        then show "(\<exists>k. i \<le> k \<and> k < ?n \<and> plan_failed cm getResult k
                 \<and> (\<forall>k'. i \<le> k' \<and> k' < k \<longrightarrow> \<not> plan_failed cm getResult k')
                 \<and> sent_chains (es1 @ es) = [i..<k])
               \<and> es1 @ es \<noteq> [] \<and> last (es1 @ es) = MoveGroupWaitForResult 60"
          using lst by simp
      qed
      from c1 c2 c3 c4 c5 show ?thesis by blast
    qed
  qed
qed

lemma send_goals_total:
  "\<forall>c \<in> set (controllers cm). set (joint_names c) \<subseteq> set (name st)
   \<Longrightarrow> length (name st) \<le> length (position st)
   \<Longrightarrow> \<forall>k. k < length (controllers cm) \<and> shouldPlan (controllers cm ! k)
             \<and> error_code_val (getResult k) = SUCCESS
           \<longrightarrow> points (planned_trajectory (getResult k)) \<noteq> []
   \<Longrightarrow> \<exists>ok md' evs'. send_goals cm getResult st i md evs = Inr (ok, md', evs')"
proof (induction cm getResult st i md evs rule: send_goals.induct)
  case (1 cm getResult st i md evs)
  show ?case
  proof (cases "i < length (controllers cm)")
    case False
    then show ?thesis by (subst send_goals.simps) auto
  next
    case True
    then have "set (joint_names (controllers cm ! i)) \<subseteq> set (name st)"
      using "1.prems"(1) by simp
    moreover have "shouldPlan (controllers cm ! i) \<and> error_code_val (getResult i) = SUCCESS
         \<longrightarrow> points (planned_trajectory (getResult i)) \<noteq> []"
      using "1.prems"(3) True by simp
    ultimately obtain ok1 md1 es1 where d: "dispatch_chain cm getResult st i md = Inr (ok1, md1, es1)"
      using dispatch_chain_total [of cm i st getResult md] "1.prems"(2) by (metis prod_cases3)
    show ?thesis
    proof (cases ok1)
      case False
      with True d show ?thesis by (subst send_goals.simps) auto
    next
      case ok1: True
      from "1.IH" [OF True d refl refl ok1 "1.prems"]
      obtain ok md' evs' where "send_goals cm getResult st (Suc i) md1 (evs @ es1) = Inr (ok, md', evs')"
        by blast
      with True d ok1 show ?thesis by (subst send_goals.simps) auto
    qed
  qed
qed

lemma moveToState_wait_independent:
  "moveToState cm getResult w st = Inr (b, evs)
   \<Longrightarrow> \<exists>evs'. moveToState cm getResult w' st = Inr (b, evs') \<and> sent_chains evs' = sent_chains evs"
  by (auto simp: moveToState_def sent_chains_append sent_chains_wait_results
      split: sum.splits prod.splits if_splits)

lemma moveToState_cases:
  assumes "moveToState cm getResult w st = Inr (b, evs)"
  shows "\<exists>md evs1. send_goals cm getResult st 0 (duration cm) [] = Inr (b, md, evs1)
           \<and> evs = (if b then evs1 @ wait_results cm w md else evs1)"
  using assms by (auto simp: moveToState_def split: sum.splits prod.splits if_splits)

lemma fold_max_Max: "fold max xs (d::real) = Max (set (d # xs))"
  by (rule Max.set_eq_fold [symmetric])

text \<open>
  C1. \<open>moveToState\<close> returns whenever the target state covers the joints of every chain
  and every successful plan has a waypoint. Whenever it returns, the flag is true if and only
  if no chain that plans got a planning result other than success. When it returns false,
  \<open>k\<close> being the first chain whose plan failed: the goals of the chains before \<open>k\<close>
  have been sent and stay sent, the goal of chain \<open>k\<close> and of every later chain has
  not, nothing was waited for, and the last thing done was the wait for the planner. What
  the waits on the chains' results return never changes the flag or the goals sent.
\<close>

theorem moveToState_result:
  "((\<forall>c \<in> set (controllers cm). set (joint_names c) \<subseteq> set (name st))
      \<and> length (name st) \<le> length (position st)
      \<and> (\<forall>k. k < length (controllers cm) \<and> shouldPlan (controllers cm ! k)
               \<and> error_code_val (getResult k) = SUCCESS
             \<longrightarrow> points (planned_trajectory (getResult k)) \<noteq> [])
     \<longrightarrow> (\<exists>b evs. moveToState cm getResult waitForResult st = Inr (b, evs)))
   \<and> (moveToState cm getResult waitForResult st = Inr (b, evs) \<longrightarrow>
        (b \<longleftrightarrow> (\<forall>i. i < length (controllers cm) \<longrightarrow> \<not> plan_failed cm getResult i))
        \<and> (b \<longrightarrow> sent_chains evs = [0..<length (controllers cm)])
        \<and> (\<not> b \<longrightarrow>
              (\<exists>k. k < length (controllers cm) \<and> plan_failed cm getResult k
                   \<and> (\<forall>i. i < k \<longrightarrow> \<not> plan_failed cm getResult i)
                   \<and> sent_chains evs = [0..<k])
              \<and> wait_timeouts evs = []
              \<and> last evs = MoveGroupWaitForResult 60)
        \<and> (\<forall>w'. \<exists>evs'. moveToState cm getResult w' st = Inr (b, evs')
                     \<and> sent_chains evs' = sent_chains evs))"
proof (intro conjI impI)
  assume cov: "(\<forall>c \<in> set (controllers cm). set (joint_names c) \<subseteq> set (name st))
      \<and> length (name st) \<le> length (position st)
      \<and> (\<forall>k. k < length (controllers cm) \<and> shouldPlan (controllers cm ! k)
               \<and> error_code_val (getResult k) = SUCCESS
             \<longrightarrow> points (planned_trajectory (getResult k)) \<noteq> [])"
  then obtain ok md evs1 where "send_goals cm getResult st 0 (duration cm) [] = Inr (ok, md, evs1)"
    using send_goals_total [of cm st getResult 0 "duration cm" "[]"] by blast
  then show "\<exists>b evs. moveToState cm getResult waitForResult st = Inr (b, evs)"
    by (auto simp: moveToState_def)
next
  assume run: "moveToState cm getResult waitForResult st = Inr (b, evs)"
  from moveToState_cases [OF run]
  obtain md evs1 where sg: "send_goals cm getResult st 0 (duration cm) [] = Inr (b, md, evs1)"
    and evs: "evs = (if b then evs1 @ wait_results cm waitForResult md else evs1)" by blast
  from send_goals_spec [OF sg]
  have nowait: "wait_timeouts evs1 = []"
    and iff: "b \<longleftrightarrow> (\<forall>k. k < length (controllers cm) \<longrightarrow> \<not> plan_failed cm getResult k)"
    and good: "b \<longrightarrow> sent_chains evs1 = [0..<length (controllers cm)]"
    and bad: "\<not> b \<longrightarrow> (\<exists>k. k < length (controllers cm) \<and> plan_failed cm getResult k
                 \<and> (\<forall>k'. k' < k \<longrightarrow> \<not> plan_failed cm getResult k')
                 \<and> sent_chains evs1 = [0..<k])
               \<and> evs1 \<noteq> [] \<and> last evs1 = MoveGroupWaitForResult 60"
    by auto
  show "b \<longleftrightarrow> (\<forall>i. i < length (controllers cm) \<longrightarrow> \<not> plan_failed cm getResult i)"
    by (rule iff)
  show "sent_chains evs = [0..<length (controllers cm)]" if b
    using that good evs by (simp add: sent_chains_append sent_chains_wait_results)
  show "\<exists>k. k < length (controllers cm) \<and> plan_failed cm getResult k
                   \<and> (\<forall>i. i < k \<longrightarrow> \<not> plan_failed cm getResult i)
                   \<and> sent_chains evs = [0..<k]" if "\<not> b"
    using that bad evs by simp
  show "wait_timeouts evs = []" if "\<not> b"
    using that nowait evs by simp
  show "last evs = MoveGroupWaitForResult 60" if "\<not> b"
    using that bad evs by simp
  show "\<forall>w'. \<exists>evs'. moveToState cm getResult w' st = Inr (b, evs')
                     \<and> sent_chains evs' = sent_chains evs"
    using moveToState_wait_independent [OF run] by blast
qed

theorem moveToState_result_witness:
  "(\<exists>evs. moveToState demo_manager plan_fails (\<lambda>i t. True) demo_target = Inr (False, evs)
       \<and> sent_chains evs = [0] \<and> wait_timeouts evs = [] \<and> last evs = MoveGroupWaitForResult 60)
   \<and> plan_failed demo_manager plan_fails 1
   \<and> (\<exists>evs. moveToState demo_manager plan_succeeds (\<lambda>i t. False) demo_target = Inr (True, evs)
       \<and> sent_chains evs = [0, 1])"
proof -
  have fails: "moveToState demo_manager plan_fails (\<lambda>i t. True) demo_target =
      Inr (False,
        [SendGoal 0
           \<lparr>trajectory =
              \<lparr>trajectory_joint_names = [''torso_lift''],
               points = [\<lparr>positions = [0.2], velocities = [0], accelerations = [0], time_from_start = 5\<rparr>]\<rparr>,
            goal_time_tolerance = 1\<rparr>,
         MoveGroupSendGoal (moveit_goal demo_manager (controllers demo_manager ! 1)
           \<lparr>positions = [-1, 0.5], velocities = [0, 0], accelerations = [0, 0], time_from_start = 0\<rparr>),
         MoveGroupWaitForResult 60])"
    by (simp add: moveToState_def send_goals.simps dispatch_chain_def makePoint_def shouldPlan_def
        demo_manager_def demo_target_def plan_fails_def SUCCESS_def Let_def)
  have succeeds: "\<exists>evs. moveToState demo_manager plan_succeeds (\<lambda>i t. False) demo_target = Inr (True, evs)"
    by (simp add: moveToState_def send_goals.simps dispatch_chain_def makePoint_def shouldPlan_def
        demo_manager_def demo_target_def plan_succeeds_def SUCCESS_def Let_def)
  then obtain evs where evs: "moveToState demo_manager plan_succeeds (\<lambda>i t. False) demo_target = Inr (True, evs)"
    by blast
  have len: "length (controllers demo_manager) = 2" by (simp add: demo_manager_def)
  have upt: "[0..<length (controllers demo_manager)] = [0, 1]" by (simp add: len upt_conv_Cons)
  from moveToState_result [of demo_manager demo_target plan_fails "\<lambda>i t. True" False] fails
  have "\<exists>k. k < length (controllers demo_manager) \<and> plan_failed demo_manager plan_fails k" by auto
  moreover have "\<not> plan_failed demo_manager plan_fails 0"
    by (simp add: plan_failed_def demo_manager_def shouldPlan_def)
  ultimately have pf: "plan_failed demo_manager plan_fails 1"
    using len by (metis One_nat_def less_2_cases)
  from moveToState_result [of demo_manager demo_target plan_succeeds "\<lambda>i t. False" True evs] evs upt
  have "sent_chains evs = [0, 1]" by simp
  with evs fails pf show ?thesis by simp
qed

text \<open>
  C2. When \<open>moveToState\<close> returns true, the value of \<open>max_duration\<close> after the first
  loop is the maximum of the configured duration and of the time of the last waypoint of
  every planned trajectory, and the second loop waits for every chain once, in order, each
  wait with that maximum times 1.5 as its timeout. A direct chain at 5 s and a plan ending
  at 8.2 s give 8.2 s and waits of 12.3 s.
\<close>

theorem moveToState_wait_bound:
  "moveToState cm getResult waitForResult st = Inr (True, evs)
   \<Longrightarrow> (\<exists>evs1. send_goals cm getResult st 0 (duration cm) [] =
                  Inr (True, aggregate_duration cm getResult, evs1)
             \<and> wait_timeouts evs1 = []
             \<and> evs = evs1 @ wait_results cm waitForResult (aggregate_duration cm getResult))
       \<and> wait_timeouts evs =
           map (\<lambda>i. (i, aggregate_duration cm getResult * 1.5)) [0..<length (controllers cm)]"
proof -
  assume run: "moveToState cm getResult waitForResult st = Inr (True, evs)"
  from moveToState_cases [OF run]
  obtain md evs1 where sg: "send_goals cm getResult st 0 (duration cm) [] = Inr (True, md, evs1)"
    and evs: "evs = evs1 @ wait_results cm waitForResult md" by auto
  from send_goals_spec [OF sg]
  have nowait: "wait_timeouts evs1 = []"
    and md: "md = fold max (planned_durations cm getResult) (duration cm)"
    by (auto simp: planned_durations_def)
  have agg: "md = aggregate_duration cm getResult"
    unfolding aggregate_duration_def md by (rule fold_max_Max)
  have "wait_timeouts evs = map (\<lambda>i. (i, aggregate_duration cm getResult * 1.5)) [0..<length (controllers cm)]"
    using evs nowait agg by (simp add: wait_timeouts_append wait_timeouts_wait_results)
  then show ?thesis using sg evs nowait agg by simp
qed

theorem moveToState_wait_bound_witness:
  "\<exists>evs. moveToState demo_manager plan_succeeds (\<lambda>i t. True) demo_target = Inr (True, evs)
     \<and> aggregate_duration demo_manager plan_succeeds = 8.2
     \<and> wait_timeouts evs = [(0, 12.3), (1, 12.3)]"
proof -
  have "\<exists>evs. moveToState demo_manager plan_succeeds (\<lambda>i t. True) demo_target = Inr (True, evs)"
    by (simp add: moveToState_def send_goals.simps dispatch_chain_def makePoint_def shouldPlan_def
        demo_manager_def demo_target_def plan_succeeds_def SUCCESS_def Let_def)
  then obtain evs where evs: "moveToState demo_manager plan_succeeds (\<lambda>i t. True) demo_target = Inr (True, evs)"
    by blast
  have agg: "aggregate_duration demo_manager plan_succeeds = 8.2"
    by (simp add: aggregate_duration_def planned_durations_def demo_manager_def plan_succeeds_def
        shouldPlan_def upt_conv_Cons)
  have upt: "[0..<length (controllers demo_manager)] = [0, 1]"
    by (simp add: demo_manager_def upt_conv_Cons)
  from moveToState_wait_bound [OF evs]
  have "wait_timeouts evs = [(0, 12.3), (1, 12.3)]"
    by (simp add: agg upt)
  with evs agg show ?thesis by blast
qed

section \<open>\<open>waitToSettle\<close>: the settle check\<close>















text \<open>
  C8. With no registered chain \<open>waitToSettle\<close> returns true at once: whatever the node,
  the clock and the pending rounds are, and with the manager, its store and its validity
  flag, as it was.
\<close>

theorem waitToSettle_no_chains:
  "controllers cm = [] \<Longrightarrow> waitToSettle cm node start rounds = Some (Inr (True, cm))"
  by (simp add: waitToSettle_def)

theorem waitToSettle_no_chains_witness:
  "controllers (demo_manager\<lparr>controllers := [], state_is_valid := True\<rparr>) = []
   \<and> waitToSettle (demo_manager\<lparr>controllers := [], state_is_valid := True\<rparr>) False 0 [] =
       Some (Inr (True, demo_manager\<lparr>controllers := [], state_is_valid := True\<rparr>))"
  using waitToSettle_no_chains [of "demo_manager\<lparr>controllers := [], state_is_valid := True\<rparr>" False 0 "[]"]
  by simp

section \<open>Queries on the registered chains: first match\<close>

lemma getChainJointNames_loop_none:
  "cn \<notin> chain_name ` set cs \<Longrightarrow> getChainJointNames_loop cs cn = []"
  by (induction cs) auto

lemma getPlanningGroupName_loop_none:
  "cn \<notin> chain_name ` set cs \<Longrightarrow> getPlanningGroupName_loop cs cn = []"
  by (induction cs) auto

lemma getChainJointNames_loop_first:
  "i < length cs \<Longrightarrow> chain_name (cs ! i) = cn \<Longrightarrow> \<forall>k<i. chain_name (cs ! k) \<noteq> cn
   \<Longrightarrow> getChainJointNames_loop cs cn = joint_names (cs ! i)"
proof (induction cs arbitrary: i)
  case Nil
  then show ?case by simp
next
  case (Cons c cs)
  show ?case
  proof (cases i)
    case 0
    with Cons.prems show ?thesis by simp
  next
    case (Suc m)
    with Cons.prems have "chain_name c \<noteq> cn" by auto
    moreover have "getChainJointNames_loop cs cn = joint_names (cs ! m)"
      using Cons.prems Suc by (intro Cons.IH) auto
    ultimately show ?thesis using Suc by simp
  qed
qed

lemma getPlanningGroupName_loop_first:
  "i < length cs \<Longrightarrow> chain_name (cs ! i) = cn \<Longrightarrow> \<forall>k<i. chain_name (cs ! k) \<noteq> cn
   \<Longrightarrow> getPlanningGroupName_loop cs cn = chain_planning_group (cs ! i)"
proof (induction cs arbitrary: i)
  case Nil
  then show ?case by simp
next
  case (Cons c cs)
  show ?case
  proof (cases i)
    case 0
    with Cons.prems show ?thesis by simp
  next
    case (Suc m)
    with Cons.prems have "chain_name c \<noteq> cn" by auto
    moreover have "getPlanningGroupName_loop cs cn = chain_planning_group (cs ! m)"
      using Cons.prems Suc by (intro Cons.IH) auto
    ultimately show ?thesis using Suc by simp
  qed
qed

text \<open>
  C10. For a name that no registered chain has, \<open>getChainJointNames\<close> returns the empty
  list and \<open>getPlanningGroupName\<close> the empty string; otherwise each returns the joint
  list, or the planning group, of the first registered chain with that name.
\<close>

theorem chain_queries:
  "(cn \<notin> set (getChains cm) \<longrightarrow>
      getChainJointNames cm cn = [] \<and> getPlanningGroupName cm cn = [])
   \<and> (i < length (controllers cm) \<and> chain_name (controllers cm ! i) = cn
        \<and> (\<forall>k<i. chain_name (controllers cm ! k) \<noteq> cn) \<longrightarrow>
      getChainJointNames cm cn = joint_names (controllers cm ! i)
      \<and> getPlanningGroupName cm cn = chain_planning_group (controllers cm ! i))"
  unfolding getChains_def getChainJointNames_def getPlanningGroupName_def
  using getChainJointNames_loop_none [of cn "controllers cm"]
    getPlanningGroupName_loop_none [of cn "controllers cm"]
    getChainJointNames_loop_first [of i "controllers cm" cn]
    getPlanningGroupName_loop_first [of i "controllers cm" cn]
  by simp

theorem chain_queries_witness:
  "''torso'' \<notin> set (getChains two_chains)
   \<and> getChainJointNames two_chains ''torso'' = []
   \<and> getPlanningGroupName two_chains ''torso'' = []
   \<and> getChainJointNames two_chains ''arm'' = [''shoulder'', ''elbow'']
   \<and> getPlanningGroupName two_chains ''arm'' = ''arm_group''"
  using chain_queries [of "''torso''" two_chains 0] chain_queries [of "''arm''" two_chains 0]
  by (simp add: two_chains_def getChains_def)

end
